theory Spec2Isabelle
  imports Complex_Main "HOL-Library.Multiset"
begin

section \<open>Doubles, as far as the headers compare and copy them\<close>

text \<open>
  The records of \<^verbatim>\<open>splitter.h\<close> and \<^verbatim>\<open>treebuilder.h\<close> store C++ \<^verbatim>\<open>double\<close>
  values, copy them and compare them with \<^verbatim>\<open><\<close>. A double is a NaN, an infinity or a
  finite number; comparison is exact (it never rounds), and every comparison with a NaN
  is false.
\<close>

datatype double = NaN | NegInf | Finite real | PosInf

fun double_less :: "double \<Rightarrow> double \<Rightarrow> bool" where
  "double_less NaN y = False"
| "double_less x NaN = False"
| "double_less NegInf NegInf = False"
| "double_less NegInf y = True"
| "double_less (Finite a) NegInf = False"
| "double_less (Finite a) (Finite b) = (a < b)"
| "double_less (Finite a) PosInf = True"
| "double_less PosInf y = False"

section \<open>SplitRecord (splitter.h)\<close>

record SplitRecord =
  feature :: int
  threshold :: double
  pos :: int
  improvement :: double
  impurity_left :: double
  impurity_right :: double

text \<open>
  \<^verbatim>\<open>SplitRecord()\<close>: the member initialisers set every field to zero.
\<close>

definition SplitRecord_default :: SplitRecord where
  "SplitRecord_default =
     \<lparr> feature = 0, threshold = Finite 0, pos = 0, improvement = Finite 0,
       impurity_left = Finite 0, impurity_right = Finite 0 \<rparr>"

text \<open>
  \<^verbatim>\<open>SplitRecord(const SplitRecord& r)\<close>. The constructor has no member initialisers, so the
  six fields of the new object start with whatever the storage it is built in holds:
  that storage is the argument \<open>raw\<close>. The body then runs six assignments. Four read
  from \<open>r\<close>. The last two are written \<^verbatim>\<open>impurity_left = impurity_left\<close> and
  \<^verbatim>\<open>impurity_right = impurity_right\<close>: both sides name the member of the new object,
  so they store the object's own value back.
\<close>

definition SplitRecord_copy :: "SplitRecord \<Rightarrow> SplitRecord \<Rightarrow> SplitRecord" where
  "SplitRecord_copy raw r =
     (let this = raw;
          this = this\<lparr>feature := feature r\<rparr>;
          this = this\<lparr>pos := pos r\<rparr>;
          this = this\<lparr>threshold := threshold r\<rparr>;
          this = this\<lparr>improvement := improvement r\<rparr>;
          this = this\<lparr>impurity_left := impurity_left this\<rparr>;
          this = this\<lparr>impurity_right := impurity_right this\<rparr>
      in this)"

text \<open>
  Modelled from the spec: \<^verbatim>\<open>SplitRecord::init_split\<close>, which the header declares and
  whose body is not among the sources. The spec's data model gives the state it leaves:
  "Default/uninitialized state: pos = start (no samples moved), improvement/impurities
  = 0."
\<close>

definition init_split :: "int \<Rightarrow> SplitRecord \<Rightarrow> SplitRecord" where
  "init_split start_pos r =
     r\<lparr>pos := start_pos, improvement := Finite 0,
       impurity_left := Finite 0, impurity_right := Finite 0\<rparr>"

section \<open>Frontier records and their order (treebuilder.h)\<close>

record P =
  p_node_id :: int
  p_start :: int
  p_end :: int
  p_pos :: int
  p_depth :: int
  p_is_leaf :: bool
  p_impurity :: double
  p_impurity_left :: double
  p_impurity_right :: double
  p_improvement :: double

text \<open>The constructor of \<^verbatim>\<open>P\<close>: one member initialiser per field.\<close>

definition P_ctor ::
  "int \<Rightarrow> int \<Rightarrow> int \<Rightarrow> int \<Rightarrow> int \<Rightarrow> bool \<Rightarrow> double \<Rightarrow> double \<Rightarrow> double \<Rightarrow> double \<Rightarrow> P" where
  "P_ctor node_id start end' pos' depth is_leaf impurity impurity_left' impurity_right' improvement' =
     \<lparr> p_node_id = node_id, p_start = start, p_end = end', p_pos = pos', p_depth = depth,
       p_is_leaf = is_leaf, p_impurity = impurity, p_impurity_left = impurity_left',
       p_impurity_right = impurity_right', p_improvement = improvement' \<rparr>"

text \<open>
  \<^verbatim>\<open>operator < (const P& p1, const P& p2)\<close>: it reads \<^verbatim>\<open>_improvement\<close> and no other
  field.
\<close>

definition operator_less :: "P \<Rightarrow> P \<Rightarrow> bool" where
  "operator_less p1 p2 = double_less (p_improvement p1) (p_improvement p2)"

subsection \<open>The frontier: std::priority_queue\<close>

text \<open>
  \<^verbatim>\<open>priority_queue<P>\<close> is the standard adaptor over a \<^verbatim>\<open>vector<P>\<close> with
  \<^verbatim>\<open>std::less<P>\<close>, that is \<^verbatim>\<open>operator <\<close> above. The queue is its vector \<open>c\<close>, kept
  as a binary heap: the parent of index \<open>i\<close> is \<open>(i - 1) div 2\<close>. \<^verbatim>\<open>push(x)\<close> is
  \<^verbatim>\<open>c.push_back(x)\<close> followed by \<^verbatim>\<open>std::push_heap\<close>, which moves the new element up
  from the last index while its parent compares less; \<^verbatim>\<open>top()\<close> is \<^verbatim>\<open>c.front()\<close>,
  the element the next \<^verbatim>\<open>pop()\<close> removes. \<^verbatim>\<open>top()\<close> of an empty queue is undefined:
  it is \<open>None\<close> here.
\<close>

function push_heap_loop :: "('a \<Rightarrow> 'a \<Rightarrow> bool) \<Rightarrow> 'a list \<Rightarrow> nat \<Rightarrow> 'a \<Rightarrow> 'a list" where
  "push_heap_loop cmp c holeIndex v =
     (let parent = (holeIndex - 1) div 2 in
      if holeIndex > 0 \<and> cmp (c ! parent) v
      then push_heap_loop cmp (c[holeIndex := c ! parent]) parent v
      else c[holeIndex := v])"
  by pat_completeness auto
termination
  by (relation "measure (\<lambda>(cmp, c, holeIndex, v). holeIndex)") auto

declare push_heap_loop.simps [simp del]

definition push_heap :: "('a \<Rightarrow> 'a \<Rightarrow> bool) \<Rightarrow> 'a list \<Rightarrow> 'a list" where
  "push_heap cmp c = (if c = [] then c else push_heap_loop cmp c (length c - 1) (last c))"

definition pq_push :: "('a \<Rightarrow> 'a \<Rightarrow> bool) \<Rightarrow> 'a list \<Rightarrow> 'a \<Rightarrow> 'a list" where
  "pq_push cmp c x = push_heap cmp (c @ [x])"

definition pq_top :: "'a list \<Rightarrow> 'a option" where
  "pq_top c = (case c of [] \<Rightarrow> None | x # rest \<Rightarrow> Some x)"

text \<open>The queue after pushing the records \<open>ps\<close>, first to last, onto an empty one.\<close>

definition pq_of_pushes :: "('a \<Rightarrow> 'a \<Rightarrow> bool) \<Rightarrow> 'a list \<Rightarrow> 'a list" where
  "pq_of_pushes cmp ps = fold (\<lambda>p c. pq_push cmp c p) ps []"

subsection \<open>BestFirstTreeBuilder::_add_to_frontier\<close>

text \<open>
  \<^verbatim>\<open>void _add_to_frontier(const P& p, priority_queue<P> pq)\<close>. The second parameter is
  passed by value: on entry \<open>pq\<close> is a copy of the caller's queue, the body pushes onto
  that copy, and the copy is destroyed on return. \<open>add_to_frontier_local\<close> is the
  parameter object at the end of the body; \<open>add_to_frontier\<close> is the caller's queue
  after the call, which the body never touches.
\<close>

definition add_to_frontier_local :: "P \<Rightarrow> P list \<Rightarrow> P list" where
  "add_to_frontier_local p pq =
     pq_push operator_less pq
       (P_ctor (p_node_id p) (p_start p) (p_end p) (p_pos p) (p_depth p) (p_is_leaf p)
          (p_impurity p) (p_impurity_left p) (p_impurity_right p) (p_improvement p))"

definition add_to_frontier :: "P \<Rightarrow> P list \<Rightarrow> P list" where
  "add_to_frontier p frontier =
     (let pq = frontier;
          pq = add_to_frontier_local p pq
      in frontier)"

section \<open>rand_int and rand_double (splitter.h)\<close>

text \<open>
  Both helpers call \<^verbatim>\<open>std::srand\<close> and then \<^verbatim>\<open>std::rand\<close>. The C library's generator
  is not part of the repository: it is the parameter \<open>L\<close>, with its hidden state of
  type \<open>'g\<close>. \<^verbatim>\<open>srand(seed)\<close> starts a new sequence that depends on the seed alone, so
  it maps the seed to a state; \<^verbatim>\<open>rand()\<close> returns a number and the next state;
  \<^verbatim>\<open>RAND_MAX\<close> is the library's constant.
\<close>

record 'g libc =
  libc_srand :: "int \<Rightarrow> 'g"
  libc_rand :: "'g \<Rightarrow> int \<times> 'g"
  libc_RAND_MAX :: int

text \<open>
  The generator that the C standard prints as its portable example
  (\<^verbatim>\<open>next = next * 1103515245 + 12345; return (unsigned)(next / 65536) % 32768\<close>), with a
  32-bit state and \<^verbatim>\<open>RAND_MAX = 32767\<close>. The \<^verbatim>\<open>int\<close> seed converts to \<^verbatim>\<open>unsigned\<close>
  modulo \<open>2 ^ 32\<close>.
\<close>

definition iso_c_libc :: "nat libc" where
  "iso_c_libc =
     \<lparr> libc_srand = (\<lambda>seed. nat (seed mod 2 ^ 32)),
       libc_rand = (\<lambda>next. let next' = (next * 1103515245 + 12345) mod 2 ^ 32
                            in (int ((next' div 65536) mod 32768), next')),
       libc_RAND_MAX = 32767 \<rparr>"

text \<open>
  \<^verbatim>\<open>int\<close> is 32 bits wide. Signed overflow, division by zero, a double that does not
  fit the \<^verbatim>\<open>int\<close> it is converted to and an index outside its vector are undefined
  behaviour in C++: the model returns a fault there. \<^verbatim>\<open>%\<close> truncates towards zero,
  and so does the conversion from double to int.
\<close>

datatype fault = SignedOverflow | DivisionByZero | ConversionOverflow | OutOfBounds

definition int_range :: "int \<Rightarrow> bool" where
  "int_range x = (- (2 ^ 31) \<le> x \<and> x < 2 ^ 31)"

definition c_rem :: "int \<Rightarrow> int \<Rightarrow> int" where
  "c_rem a b = sgn a * (\<bar>a\<bar> mod \<bar>b\<bar>)"

definition c_trunc :: "real \<Rightarrow> int" where
  "c_trunc x = (if 0 \<le> x then \<lfloor>x\<rfloor> else \<lceil>x\<rceil>)"

definition rand_int :: "'g libc \<Rightarrow> int \<Rightarrow> int \<Rightarrow> int \<Rightarrow> 'g \<Rightarrow> (fault + int) \<times> 'g" where
  "rand_int L low high random_state g0 =
     (let g = libc_srand L random_state;
          (random_variable, g) = libc_rand L g;
          d = high - low
      in if \<not> int_range d then (Inl SignedOverflow, g)
         else if d = 0 then (Inl DivisionByZero, g)
         else if random_variable = - (2 ^ 31) \<and> d = - 1 then (Inl SignedOverflow, g)
         else if \<not> int_range (low + c_rem random_variable d) then (Inl SignedOverflow, g)
         else (Inr (low + c_rem random_variable d), g))"

text \<open>
  \<^verbatim>\<open>inline int rand_double(int low, int high, int random_state)\<close>: the bounds and the
  result are \<^verbatim>\<open>int\<close>. The return expression
  \<^verbatim>\<open>((high - low) * (double)random_variable) / RAND_MAX + low\<close> is computed in double and
  converted to the \<^verbatim>\<open>int\<close> result. Each double operation yields the exact result
  rounded to a double: the rounding is the parameter \<open>rnd\<close>. The conversions of the
  32-bit operands to double are exact. A division by \<^verbatim>\<open>RAND_MAX = 0\<close> would give an
  infinity or a NaN, which no \<^verbatim>\<open>int\<close> holds (every C library has \<^verbatim>\<open>RAND_MAX\<close> at least
  32767).
\<close>

definition rand_double ::
  "(real \<Rightarrow> real) \<Rightarrow> 'g libc \<Rightarrow> int \<Rightarrow> int \<Rightarrow> int \<Rightarrow> 'g \<Rightarrow> (fault + int) \<times> 'g" where
  "rand_double rnd L low high random_state g0 =
     (let g = libc_srand L random_state;
          (random_variable, g) = libc_rand L g;
          d = high - low
      in if \<not> int_range d then (Inl SignedOverflow, g)
         else if libc_RAND_MAX L = 0 then (Inl ConversionOverflow, g)
         else
           let x = rnd (real_of_int d * real_of_int random_variable);
               x = rnd (x / real_of_int (libc_RAND_MAX L));
               x = rnd (x + real_of_int low)
           in if \<not> int_range (c_trunc x) then (Inl ConversionOverflow, g)
              else (Inr (c_trunc x), g))"

text \<open>Exact arithmetic: the rounding that changes nothing.\<close>

definition exact :: "real \<Rightarrow> real" where
  "exact x = x"

section \<open>The splitter\<close>

text \<open>
  \<^verbatim>\<open>splitter.h\<close> declares the class \<^verbatim>\<open>Splitter\<close> with its fields and the virtual
  \<^verbatim>\<open>node_split\<close> of \<^verbatim>\<open>BestSplitter\<close> and \<^verbatim>\<open>RandomSplitter\<close>; the bodies of
  \<^verbatim>\<open>node_reset\<close> and \<^verbatim>\<open>node_split\<close>, and the whole of \<^verbatim>\<open>criterion.h\<close>, are not among
  the sources. The record below holds the fields of the header that the search reads
  or writes (\<^verbatim>\<open>end\<close> is written \<open>end'\<close>; the dense matrix \<^verbatim>\<open>X\<close> maps a sample and a
  feature to a value, \<^verbatim>\<open>sample_weight\<close> a sample to its weight). Feature values,
  thresholds and weights are finite numbers, and sums of weights are exact.
  \<^verbatim>\<open>FEATURE_THRESHOLD\<close> is the header's constant \<^verbatim>\<open>1e-7\<close>.
\<close>

record Splitter =
  max_features :: int
  min_samples_leaf :: int
  min_weight_leaf :: real
  random_state :: int
  samples :: "int list"
  features :: "int list"
  start :: int
  end' :: int
  X :: "int \<Rightarrow> int \<Rightarrow> real"
  sample_weight :: "int \<Rightarrow> real"

definition FEATURE_THRESHOLD :: real where
  "FEATURE_THRESHOLD = 1 / 10 ^ 7"

text \<open>
  Modelled from the spec: the errors of \<^verbatim>\<open>find_split\<close>, whose body (\<^verbatim>\<open>node_split\<close>) is
  not among the sources. Section 7 names \<^verbatim>\<open>EmptyRangeError\<close> and \<^verbatim>\<open>CriterionError\<close>
  ("propagated unchanged"); the third error is the undefined behaviour of the C++
  that the search runs (the header's helpers, an index outside a vector).
\<close>

datatype error = EmptyRangeError | CriterionError | UndefinedBehaviour fault

text \<open>
  Modelled from the spec: the Criterion interface of section 6, which \<^verbatim>\<open>criterion.h\<close>
  (not among the sources) declares. The criterion is bound to a range by \<^verbatim>\<open>reset\<close> and
  to a boundary by \<^verbatim>\<open>update\<close>; here each query takes what it is bound to: the samples
  of the node, or the samples left and right of the boundary. A query can fail.
\<close>

record Criterion =
  node_impurity :: "int list \<Rightarrow> error + double"
  children_impurity :: "int list \<Rightarrow> int list \<Rightarrow> error + double \<times> double"
  impurity_improvement ::
    "int list \<Rightarrow> int list \<Rightarrow> double \<Rightarrow> double \<Rightarrow> double \<Rightarrow> error + double"

text \<open>
  Modelled from the spec: the splitter variants, whose \<^verbatim>\<open>node_split\<close> bodies are not
  among the sources. Section 9 has the closed set Best, Random, PresortBest;
  PresortBest (the search of Best on a presorted order) is left out.
\<close>

datatype strategy = Best | Random

text \<open>\<open>slice xs a b\<close> is \<^verbatim>\<open>xs[a:b)\<close>, for the positions \<open>a\<close>, \<open>b\<close> of type \<^verbatim>\<open>int\<close>.\<close>

definition slice :: "'a list \<Rightarrow> int \<Rightarrow> int \<Rightarrow> 'a list" where
  "slice xs a b = take (nat (b - a)) (drop (nat a) xs)"

text \<open>
  Modelled from the spec: the samples of the node being processed, "the sub-range
  \<^verbatim>\<open>samples[start:end)\<close>" of section 3.
\<close>

definition node_samples :: "Splitter \<Rightarrow> int list" where
  "node_samples sp = slice (samples sp) (start sp) (end' sp)"

text \<open>
  Modelled from the spec: a write to the node's range "without reallocating the whole
  permutation" (section 3): the positions from \<open>start\<close> on are overwritten by \<open>ys\<close>,
  the rest of the vector stays.
\<close>

definition write_node_samples :: "int list \<Rightarrow> Splitter \<Rightarrow> Splitter" where
  "write_node_samples ys sp =
     sp\<lparr>samples := take (nat (start sp)) (samples sp) @ ys @
                     drop (nat (start sp) + length ys) (samples sp)\<rparr>"


text \<open>
  Modelled from the spec: the "total sample weight" of a partition (section 4.1), the
  sum of the weights of its samples.
\<close>

definition weight :: "Splitter \<Rightarrow> int list \<Rightarrow> real" where
  "weight sp xs = sum_list (map (sample_weight sp) xs)"

text \<open>
  Modelled from the spec: split acceptance, part of the missing \<^verbatim>\<open>node_split\<close>. "A
  candidate is accepted only if the left and right partitions each contain at least
  \<^verbatim>\<open>min_samples_leaf\<close> samples and at least \<^verbatim>\<open>min_weight_leaf\<close> total sample weight."
\<close>

definition accepted :: "Splitter \<Rightarrow> int list \<Rightarrow> int list \<Rightarrow> bool" where
  "accepted sp left right =
     (min_samples_leaf sp \<le> int (length left) \<and> min_samples_leaf sp \<le> int (length right) \<and>
      min_weight_leaf sp \<le> weight sp left \<and> min_weight_leaf sp \<le> weight sp right)"

text \<open>
  Modelled from the spec: the evaluation of one candidate boundary, part of the missing
  \<^verbatim>\<open>node_split\<close>. "Candidates violating this are skipped, not merely penalized": a
  boundary that is not accepted yields no candidate. An accepted one yields the
  candidate with the criterion's impurities and improvement ("querying Criterion for
  the impurity improvement at each candidate boundary"); a failing query is the
  result. \<open>pos\<close> is the position in the permutation after the left part.
\<close>

definition evaluate ::
  "Criterion \<Rightarrow> Splitter \<Rightarrow> double \<Rightarrow> int \<Rightarrow> real \<Rightarrow> int list \<Rightarrow> int list \<Rightarrow> error + SplitRecord list" where
  "evaluate C sp impurity f thr left right =
     (if \<not> accepted sp left right then Inr []
      else case children_impurity C left right of
             Inl e \<Rightarrow> Inl e
           | Inr (il, ir) \<Rightarrow>
               (case impurity_improvement C left right impurity il ir of
                  Inl e \<Rightarrow> Inl e
                | Inr imp \<Rightarrow>
                    Inr [\<lparr> feature = f, threshold = Finite thr,
                           pos = start sp + int (length left), improvement = imp,
                           impurity_left = il, impurity_right = ir \<rparr>]))"

text \<open>
  Modelled from the spec: the scan of one sorted feature, part of the missing
  \<^verbatim>\<open>BestSplitter::node_split\<close>. "Scan adjacent distinct values as candidate
  thresholds": at each offset \<open>i\<close> of the sorted samples \<open>ss\<close> whose value differs
  from the one before, the boundary between them is evaluated, with the midpoint of
  the two values as threshold. The candidates come in scan order.
\<close>

fun best_scan ::
  "Criterion \<Rightarrow> Splitter \<Rightarrow> double \<Rightarrow> int \<Rightarrow> int list \<Rightarrow> nat list \<Rightarrow> error + SplitRecord list" where
  "best_scan C sp impurity f ss [] = Inr []"
| "best_scan C sp impurity f ss (i # rest) =
     (let a = X sp (ss ! (i - 1)) f; b = X sp (ss ! i) f
      in case (if a < b then evaluate C sp impurity f ((a + b) / 2) (take i ss) (drop i ss)
               else Inr []) of
           Inl e \<Rightarrow> Inl e
         | Inr cs \<Rightarrow>
             (case best_scan C sp impurity f ss rest of
                Inl e \<Rightarrow> Inl e
              | Inr ds \<Rightarrow> Inr (cs @ ds)))"

text \<open>
  Modelled from the spec: the best-split search of one feature, part of the missing
  \<^verbatim>\<open>BestSplitter::node_split\<close>. "Collect the feature's value for every sample in
  \<^verbatim>\<open>[start, end)\<close>, sort the (value, index) pairs ascending, then scan". "A feature
  whose max minus min value across the range is below a small fixed epsilon" is
  constant and yields no candidate. The result is the constant flag, the splitter with
  its range sorted, and the candidates.
\<close>

definition best_search ::
  "Criterion \<Rightarrow> Splitter \<Rightarrow> double \<Rightarrow> int \<Rightarrow> error + bool \<times> Splitter \<times> SplitRecord list" where
  "best_search C sp impurity f =
     (let ss = sort_key (\<lambda>s. X sp s f) (node_samples sp);
          sp = write_node_samples ss sp
      in if X sp (last ss) f - X sp (hd ss) f < FEATURE_THRESHOLD then Inr (True, sp, [])
         else case best_scan C sp impurity f ss [1..<length ss] of
                Inl e \<Rightarrow> Inl e
              | Inr cs \<Rightarrow> Inr (False, sp, cs))"

text \<open>
  Modelled from the spec: the partition of a range at a threshold, part of the missing
  \<^verbatim>\<open>node_split\<close>; "a stable partition-in-place discipline shared by every strategy
  variant": the samples whose value is at most the threshold, in their order, then
  the others, in their order.
\<close>

definition stable_partition :: "Splitter \<Rightarrow> int \<Rightarrow> real \<Rightarrow> int list \<Rightarrow> int list \<times> int list" where
  "stable_partition sp f thr ns =
     (filter (\<lambda>s. X sp s f \<le> thr) ns, filter (\<lambda>s. \<not> X sp s f \<le> thr) ns)"

text \<open>
  Modelled from the spec: the random search of one feature, part of the missing
  \<^verbatim>\<open>RandomSplitter::node_split\<close>. "RandomSplitter differs only in how the threshold is
  chosen per sampled feature: draw one threshold uniformly between the feature's
  observed min and max in range rather than scanning all boundaries; if every sample
  shares this feature's value the feature is still constant-flagged." The draw is the
  header's \<^verbatim>\<open>rand_double\<close>, whose parameters and result are \<^verbatim>\<open>int\<close>: the two doubles
  are converted on the way in and the result on the way out. The range is partitioned
  at the threshold and the one boundary is evaluated.
\<close>

definition random_search ::
  "(real \<Rightarrow> real) \<Rightarrow> 'g libc \<Rightarrow> Criterion \<Rightarrow> Splitter \<Rightarrow> double \<Rightarrow> int \<Rightarrow> 'g \<Rightarrow>
   (error + bool \<times> Splitter \<times> SplitRecord list) \<times> 'g" where
  "random_search rnd L C sp impurity f g =
     (let ns = node_samples sp;
          vs = map (\<lambda>s. X sp s f) ns;
          min_feature_value = fold min vs (hd vs);
          max_feature_value = fold max vs (hd vs)
      in if max_feature_value - min_feature_value < FEATURE_THRESHOLD then (Inr (True, sp, []), g)
         else if \<not> int_range (c_trunc min_feature_value) \<or> \<not> int_range (c_trunc max_feature_value)
         then (Inl (UndefinedBehaviour ConversionOverflow), g)
         else case rand_double rnd L (c_trunc min_feature_value) (c_trunc max_feature_value)
                     (random_state sp) g of
                (Inl u, g) \<Rightarrow> (Inl (UndefinedBehaviour u), g)
              | (Inr t, g) \<Rightarrow>
                  (let thr = real_of_int t;
                       (left, right) = stable_partition sp f thr ns;
                       sp = write_node_samples (left @ right) sp
                   in case evaluate C sp impurity f thr left right of
                        Inl e \<Rightarrow> (Inl e, g)
                      | Inr cs \<Rightarrow> (Inr (False, sp, cs), g)))"

text \<open>
  Modelled from the spec: the dispatch on the variant ("one shared \<^verbatim>\<open>find_split\<close>
  capability", section 9), in place of the virtual \<^verbatim>\<open>node_split\<close> whose bodies are
  missing.
\<close>

definition search_feature ::
  "strategy \<Rightarrow> (real \<Rightarrow> real) \<Rightarrow> 'g libc \<Rightarrow> Criterion \<Rightarrow> Splitter \<Rightarrow> double \<Rightarrow> int \<Rightarrow> 'g \<Rightarrow>
   (error + bool \<times> Splitter \<times> SplitRecord list) \<times> 'g" where
  "search_feature st rnd L C sp impurity f g =
     (case st of
        Best \<Rightarrow> (best_search C sp impurity f, g)
      | Random \<Rightarrow> random_search rnd L C sp impurity f g)"

text \<open>The exchange of two elements of a vector.\<close>

definition swap :: "nat \<Rightarrow> nat \<Rightarrow> 'a list \<Rightarrow> 'a list" where
  "swap i j xs = xs[i := xs ! j, j := xs ! i]"

text \<open>
  Modelled from the spec: feature sampling, part of the missing \<^verbatim>\<open>node_split\<close>.
  "Feature sampling without replacement draws up to \<^verbatim>\<open>max_features\<close> distinct feature
  indices by repeatedly swapping a randomly chosen remaining feature to the front of
  the unexamined region"; "sampling stops early once \<^verbatim>\<open>max_features\<close> features have
  been drawn or all features are exhausted". The features before \<open>n_const\<close> are the
  constant-feature region, those from \<open>k\<close> on are unexamined, \<open>n\<close> is the number of
  features; a feature found constant is swapped into the constant region. The draw is
  the header's \<^verbatim>\<open>rand_int\<close>. The loop collects the candidates of every feature it
  examines.
\<close>

function draw_loop ::
  "strategy \<Rightarrow> (real \<Rightarrow> real) \<Rightarrow> 'g libc \<Rightarrow> Criterion \<Rightarrow> double \<Rightarrow> nat \<Rightarrow>
   nat \<Rightarrow> nat \<Rightarrow> nat \<Rightarrow> Splitter \<Rightarrow> SplitRecord list \<Rightarrow> 'g \<Rightarrow>
   (error + Splitter \<times> SplitRecord list \<times> nat) \<times> 'g" where
  "draw_loop st rnd L C impurity n k n_drawn n_const sp cands g =
     (if k < n \<and> int n_drawn < max_features sp then
        (case rand_int L (int k) (int n) (random_state sp) g of
           (Inl u, g) \<Rightarrow> (Inl (UndefinedBehaviour u), g)
         | (Inr j, g) \<Rightarrow>
             if j < int k \<or> int n \<le> j then (Inl (UndefinedBehaviour OutOfBounds), g)
             else
               (let sp = sp\<lparr>features := swap k (nat j) (features sp)\<rparr>;
                    f = features sp ! k
                in case search_feature st rnd L C sp impurity f g of
                     (Inl e, g) \<Rightarrow> (Inl e, g)
                   | (Inr (is_constant, sp, cs), g) \<Rightarrow>
                       if is_constant
                       then draw_loop st rnd L C impurity n (k + 1) (n_drawn + 1) (n_const + 1)
                              (sp\<lparr>features := swap n_const k (features sp)\<rparr>) (cands @ cs) g
                       else draw_loop st rnd L C impurity n (k + 1) (n_drawn + 1) n_const
                              sp (cands @ cs) g))
      else (Inr (sp, cands, n_const), g))"
  by pat_completeness auto
termination
  by (relation "measure (\<lambda>(st, rnd, L, C, impurity, n, k, n_drawn, n_const, sp, cands, g). n - k)") auto

declare draw_loop.simps [simp del]

text \<open>
  Modelled from the spec: "keeping the maximum" of the improvements, part of the
  missing \<^verbatim>\<open>node_split\<close>; among equals "first found wins" (section 9).
\<close>

definition keep_better :: "SplitRecord \<Rightarrow> SplitRecord \<Rightarrow> SplitRecord" where
  "keep_better current best =
     (if double_less (improvement best) (improvement current) then current else best)"

text \<open>
  Modelled from the spec: the partition that the missing \<^verbatim>\<open>node_split\<close> leaves behind.
  "The sample permutation's \<^verbatim>\<open>[start, end)\<close> is left physically partitioned at
  \<^verbatim>\<open>pos\<close>": by the feature and the threshold of the kept split.
\<close>

definition partition_node :: "SplitRecord \<Rightarrow> Splitter \<Rightarrow> Splitter" where
  "partition_node best sp =
     (case threshold best of
        Finite thr \<Rightarrow>
          (let (left, right) = stable_partition sp (feature best) thr (node_samples sp)
           in write_node_samples (left @ right) sp)
      | _ \<Rightarrow> sp)"

text \<open>
  Modelled from the spec: the candidates that the missing \<^verbatim>\<open>node_split\<close> examines.
  "\<^verbatim>\<open>find_split\<close> called with \<^verbatim>\<open>end <= start\<close> fails with \<^verbatim>\<open>EmptyRangeError\<close>"; a
  range outside the permutation is an access out of bounds. The features before
  \<^verbatim>\<open>n_constant_features\<close> are skipped.
\<close>

definition node_split_candidates ::
  "strategy \<Rightarrow> (real \<Rightarrow> real) \<Rightarrow> 'g libc \<Rightarrow> Criterion \<Rightarrow> double \<Rightarrow> int \<Rightarrow> Splitter \<Rightarrow> 'g \<Rightarrow>
   (error + Splitter \<times> SplitRecord list \<times> nat) \<times> 'g" where
  "node_split_candidates st rnd L C impurity n_constant_features sp g =
     (if end' sp \<le> start sp then (Inl EmptyRangeError, g)
      else if start sp < 0 \<or> int (length (samples sp)) < end' sp
      then (Inl (UndefinedBehaviour OutOfBounds), g)
      else draw_loop st rnd L C impurity (length (features sp))
             (nat n_constant_features) 0 (nat n_constant_features) sp [] g)"

text \<open>
  Modelled from the spec: \<^verbatim>\<open>node_split\<close> (the spec's \<^verbatim>\<open>find_split\<close>), declared in the
  header, bodies not among the sources. Of the candidates the search keeps the maximum
  improvement, starting from the record that stands for no split: \<open>pos = end\<close> and
  improvement 0 (the header's comment on \<^verbatim>\<open>SplitRecord::pos\<close>: "pos is >= end if the
  node is a leaf"; the spec: "\<^verbatim>\<open>pos >= end\<close>" when "no improving split exists"). When
  a split is kept the range is partitioned at it. The result is the record, the new
  constant-feature count and the splitter.
\<close>

definition node_split ::
  "strategy \<Rightarrow> (real \<Rightarrow> real) \<Rightarrow> 'g libc \<Rightarrow> Criterion \<Rightarrow> double \<Rightarrow> int \<Rightarrow> Splitter \<Rightarrow> 'g \<Rightarrow>
   (error + SplitRecord \<times> int \<times> Splitter) \<times> 'g" where
  "node_split st rnd L C impurity n_constant_features sp g =
     (case node_split_candidates st rnd L C impurity n_constant_features sp g of
        (Inl e, g) \<Rightarrow> (Inl e, g)
      | (Inr (sp, cands, n_const), g) \<Rightarrow>
          (let best = fold keep_better cands (init_split (end' sp) SplitRecord_default)
           in if pos best < end' sp then (Inr (best, int n_const, partition_node best sp), g)
              else (Inr (best, int n_const, sp), g)))"

subsection \<open>A criterion and a node to run the search on\<close>

text \<open>
  The Gini impurity of two-class labels \<open>y\<close> (0 or 1), as a criterion that never
  fails on finite impurities; and the node of the spec's first scenario: feature
  values 1, 2, 3, 10 of the samples 0 to 3 with labels 0, 0, 1, 1, uniform weight,
  \<^verbatim>\<open>min_samples_leaf = 1\<close>. The node is the range \<^verbatim>\<open>[1, 5)\<close> of a permutation of six
  samples.
\<close>

definition gini :: "(int \<Rightarrow> real) \<Rightarrow> int list \<Rightarrow> real" where
  "gini y xs =
     (if xs = [] then 0
      else let p = sum_list (map y xs) / real (length xs) in 2 * p * (1 - p))"

definition gini_criterion :: "(int \<Rightarrow> real) \<Rightarrow> Criterion" where
  "gini_criterion y =
     \<lparr> node_impurity = (\<lambda>xs. Inr (Finite (gini y xs))),
       children_impurity = (\<lambda>l r. Inr (Finite (gini y l), Finite (gini y r))),
       impurity_improvement = (\<lambda>l r parent il ir.
          case (parent, il, ir) of
            (Finite p, Finite a, Finite b) \<Rightarrow>
              Inr (Finite (p - (real (length l) * a + real (length r) * b) / real (length l + length r)))
          | _ \<Rightarrow> Inl CriterionError) \<rparr>"

definition example_labels :: "int \<Rightarrow> real" where
  "example_labels s = (if s < 2 then 0 else 1)"

definition example_splitter :: Splitter where
  "example_splitter =
     \<lparr> max_features = 1, min_samples_leaf = 1, min_weight_leaf = 1, random_state = 1,
       samples = [5, 3, 0, 2, 1, 4], features = [0], start = 0, end' = 6,
       X = (\<lambda>s f. if s = 0 then 1 else if s = 1 then 2 else if s = 2 then 3 else 10),
       sample_weight = (\<lambda>s. 1) \<rparr>"

definition example_node :: Splitter where
  "example_node = example_splitter\<lparr>start := 1, end' := 5\<rparr>"

text \<open>
  The record the best search returns on that node (the threshold between the values 2
  and 3), and the one the random search returns with the C standard's generator (the
  threshold 5).
\<close>

definition example_best_record :: SplitRecord where
  "example_best_record =
     \<lparr> feature = 0, threshold = Finite (5 / 2), pos = 3, improvement = Finite (1 / 2),
       impurity_left = Finite 0, impurity_right = Finite 0 \<rparr>"

definition example_random_record :: SplitRecord where
  "example_random_record =
     \<lparr> feature = 0, threshold = Finite 5, pos = 4, improvement = Finite (1 / 6),
       impurity_left = Finite (4 / 9), impurity_right = Finite 0 \<rparr>"

text \<open>
  The node of the spec's second scenario: three samples that share the feature value
  5.
\<close>

definition example_constant_node :: Splitter where
  "example_constant_node =
     \<lparr> max_features = 1, min_samples_leaf = 1, min_weight_leaf = 1, random_state = 1,
       samples = [0, 1, 2], features = [0], start = 0, end' = 3,
       X = (\<lambda>s f. 5), sample_weight = (\<lambda>s. 1) \<rparr>"

section \<open>Predicates of the proofs about the splitter\<close>

text \<open>
  \<open>in_bounds\<close>: the node's range is a non-empty range of the permutation.
  \<open>same_node sp sp'\<close>: \<open>sp'\<close> is \<open>sp\<close> with the samples of the node's range permuted
  (and possibly other features). \<open>split_ok sp r\<close>: the record \<open>r\<close> describes an
  accepted partition of the node at its threshold. \<open>cand_ok\<close>: what every candidate
  of the search satisfies.
\<close>

definition in_bounds :: "Splitter \<Rightarrow> bool" where
  "in_bounds sp = (0 \<le> start sp \<and> start sp < end' sp \<and> end' sp \<le> int (length (samples sp)))"

definition same_node :: "Splitter \<Rightarrow> Splitter \<Rightarrow> bool" where
  "same_node sp sp' =
     (start sp' = start sp \<and> end' sp' = end' sp \<and> X sp' = X sp \<and>
      sample_weight sp' = sample_weight sp \<and> min_samples_leaf sp' = min_samples_leaf sp \<and>
      min_weight_leaf sp' = min_weight_leaf sp \<and> max_features sp' = max_features sp \<and>
      random_state sp' = random_state sp \<and>
      length (samples sp') = length (samples sp) \<and>
      take (nat (start sp)) (samples sp') = take (nat (start sp)) (samples sp) \<and>
      drop (nat (end' sp)) (samples sp') = drop (nat (end' sp)) (samples sp) \<and>
      mset (node_samples sp') = mset (node_samples sp))"

definition split_ok :: "Splitter \<Rightarrow> SplitRecord \<Rightarrow> bool" where
  "split_ok sp r =
     (\<exists>thr. threshold r = Finite thr \<and>
        pos r = start sp + int (length (fst (stable_partition sp (feature r) thr (node_samples sp)))) \<and>
        accepted sp (fst (stable_partition sp (feature r) thr (node_samples sp)))
                    (snd (stable_partition sp (feature r) thr (node_samples sp))))"

definition cand_ok :: "strategy \<Rightarrow> Splitter \<Rightarrow> SplitRecord \<Rightarrow> bool" where
  "cand_ok st sp c = (split_ok sp c \<and> (st = Best \<longrightarrow> pos c < end' sp))"

text \<open>\<open>criterion_total\<close>: the criterion answers every query of the search.\<close>

definition criterion_total :: "Criterion \<Rightarrow> bool" where
  "criterion_total C =
     ((\<forall>l r. \<exists>v. children_impurity C l r = Inr v) \<and>
      (\<forall>l r p a b. \<exists>v. impurity_improvement C l r p a b = Inr v))"

section \<open>Predicates of the proofs about the frontier\<close>






section \<open>SplitRecord: construction and copy\<close>

lemma SplitRecord_copy_fields:
  "feature (SplitRecord_copy raw r) = feature r"
  "pos (SplitRecord_copy raw r) = pos r"
  "threshold (SplitRecord_copy raw r) = threshold r"
  "improvement (SplitRecord_copy raw r) = improvement r"
  "impurity_left (SplitRecord_copy raw r) = impurity_left raw"
  "impurity_right (SplitRecord_copy raw r) = impurity_right raw"
  by (simp_all add: SplitRecord_copy_def)


text \<open>
  C10. The claim: the copy constructor copies all six fields. The code copies four.
  Here a record with impurities 5 and 6 is copied into zeroed storage: the copy's
  impurities are the storage's zeros, not 5 and 6.
\<close>

theorem SplitRecord_copy_impurities_not_copied:
  "(let r = \<lparr> feature = 1, threshold = Finite 2, pos = 3, improvement = Finite 4,
               impurity_left = Finite 5, impurity_right = Finite 6 \<rparr>;
        c = SplitRecord_copy SplitRecord_default r
    in feature c = 1 \<and> threshold c = Finite 2 \<and> pos c = 3 \<and> improvement c = Finite 4 \<and>
       impurity_left c = Finite 0 \<and> impurity_right c = Finite 0 \<and>
       impurity_left c \<noteq> impurity_left r \<and> impurity_right c \<noteq> impurity_right r)"
  by (simp add: SplitRecord_copy_def SplitRecord_default_def)

section \<open>The frontier\<close>

lemma add_to_frontier_frame: "add_to_frontier p frontier = frontier"
  by (simp add: add_to_frontier_def Let_def)

text \<open>
  C1. The claim: after \<^verbatim>\<open>_add_to_frontier(p, pq)\<close> the caller's frontier contains \<open>p\<close>.
  With an empty frontier and a record \<open>p\<close>: the parameter copy holds \<open>p\<close> at the end
  of the body, and the caller's frontier is still empty.
\<close>

theorem add_to_frontier_caller_unchanged:
  "(let p = P_ctor 0 0 4 2 0 False (Finite 1) (Finite 0) (Finite 0) (Finite 1)
    in add_to_frontier_local p [] = [p] \<and> add_to_frontier p [] = [] \<and>
       p \<notin> set (add_to_frontier p []))"
  by (simp add: add_to_frontier_def add_to_frontier_local_def pq_push_def push_heap_def
      push_heap_loop.simps P_ctor_def Let_def)

lemma double_less_irrefl: "\<not> double_less x x"
  by (cases x) simp_all





subsection \<open>std::push_heap keeps the heap\<close>














subsection \<open>The order of the frontier\<close>



text \<open>
  C5. The claim: among records of equal improvement the one with the smaller node id
  is popped first. Records \<open>a\<close> (node id 0) and \<open>b\<close> (node id 1) have the same
  improvement; \<open>b\<close> is pushed first, then \<open>a\<close>. \<^verbatim>\<open>operator <\<close> does not order \<open>b\<close>
  before \<open>a\<close>, and \<^verbatim>\<open>top()\<close> is \<open>b\<close>, the larger node id.
\<close>

theorem equal_improvement_larger_node_id_on_top:
  "(let a = P_ctor 0 0 4 2 1 False (Finite 1) (Finite 0) (Finite 0) (Finite 1);
        b = P_ctor 1 4 8 6 1 False (Finite 1) (Finite 0) (Finite 0) (Finite 1)
    in p_improvement a = p_improvement b \<and> p_node_id a < p_node_id b \<and>
       \<not> operator_less b a \<and> pq_top (pq_of_pushes operator_less [b, a]) = Some b)"
  by (simp add: pq_of_pushes_def pq_push_def push_heap_def push_heap_loop.simps P_ctor_def
      Let_def operator_less_def pq_top_def)

text \<open>
  C5 as amended. Between two records of equal improvement \<^verbatim>\<open>operator <\<close> holds in
  neither direction, whatever their node ids; pushed onto an empty frontier, the one
  pushed first is the one \<^verbatim>\<open>top()\<close> returns.
\<close>

theorem equal_improvement_unordered:
  "p_improvement p1 = p_improvement p2 \<Longrightarrow>
   \<not> operator_less p1 p2 \<and> \<not> operator_less p2 p1 \<and>
   pq_top (pq_of_pushes operator_less [p1, p2]) = Some p1"
  by (simp add: pq_of_pushes_def pq_push_def push_heap_def push_heap_loop.simps Let_def
      operator_less_def pq_top_def double_less_irrefl)

theorem equal_improvement_unordered_witness:
  "(let a = P_ctor 7 0 4 2 1 False (Finite 1) (Finite 0) (Finite 0) (Finite 2);
        b = P_ctor 3 4 8 6 1 False (Finite 1) (Finite 0) (Finite 0) (Finite 2)
    in p_improvement a = p_improvement b \<and>
       \<not> operator_less a b \<and> \<not> operator_less b a \<and>
       pq_top (pq_of_pushes operator_less [a, b]) = Some a)"
  using equal_improvement_unordered [of
      "P_ctor 7 0 4 2 1 False (Finite 1) (Finite 0) (Finite 0) (Finite 2)"
      "P_ctor 3 4 8 6 1 False (Finite 1) (Finite 0) (Finite 0) (Finite 2)"]
  by (simp add: P_ctor_def Let_def)

section \<open>rand_int and rand_double\<close>






section \<open>The splitter: the node's range, the candidates, the kept split\<close>

subsection \<open>Writing the node's range in place\<close>

lemma length_node_samples:
  "in_bounds sp \<Longrightarrow> length (node_samples sp) = nat (end' sp - start sp)"
  by (auto simp: in_bounds_def node_samples_def slice_def)

lemma same_node_refl: "same_node sp sp"
  by (simp add: same_node_def)

lemma same_node_trans: "same_node a b \<Longrightarrow> same_node b c \<Longrightarrow> same_node a c"
  by (simp add: same_node_def)

lemma same_node_in_bounds: "same_node a b \<Longrightarrow> in_bounds a \<Longrightarrow> in_bounds b"
  by (simp add: same_node_def in_bounds_def)

lemma same_node_features: "same_node sp (sp\<lparr>features := fs\<rparr>)"
  by (simp add: same_node_def node_samples_def)

lemma write_node_samples_same:
  assumes b: "in_bounds sp" and m: "mset ys = mset (node_samples sp)"
  shows "same_node sp (write_node_samples ys sp)" and "node_samples (write_node_samples ys sp) = ys"
proof -
  define a where "a = nat (start sp)"
  define e where "e = nat (end' sp)"
  define xs where "xs = samples sp"
  have ae: "a < e" "e \<le> length xs" using b by (auto simp: in_bounds_def a_def e_def xs_def)
  have "length ys = length (node_samples sp)" using m by (metis size_mset)
  then have ly: "length ys = e - a"
    using length_node_samples [OF b] b by (simp add: a_def e_def in_bounds_def nat_diff_distrib)
  have ns: "nat (end' sp - start sp) = e - a"
    using b by (simp add: a_def e_def in_bounds_def nat_diff_distrib)
  have s': "samples (write_node_samples ys sp) = take a xs @ ys @ drop e xs"
    using ly ae by (simp add: write_node_samples_def a_def [symmetric] xs_def [symmetric])
  have la: "length (take a xs) = a" using ae by simp
  have st: "start (write_node_samples ys sp) = start sp" "end' (write_node_samples ys sp) = end' sp"
    by (simp_all add: write_node_samples_def)
  have d: "drop a (take a xs @ ys @ drop e xs) = ys @ drop e xs" using la by simp
  have "node_samples (write_node_samples ys sp) = take (e - a) (drop a (take a xs @ ys @ drop e xs))"
    unfolding node_samples_def slice_def st s' ns a_def [symmetric] ..
  also have "\<dots> = ys" unfolding d using ly by simp
  finally show "node_samples (write_node_samples ys sp) = ys" .
  then have "mset (node_samples (write_node_samples ys sp)) = mset (node_samples sp)" using m by simp
  moreover have "length (samples (write_node_samples ys sp)) = length xs" using ae ly by (simp add: s')
  moreover have "take a (samples (write_node_samples ys sp)) = take a xs" using la by (simp add: s')
  moreover have "drop e (samples (write_node_samples ys sp)) = drop e xs" using la ly ae by (simp add: s')
  ultimately show "same_node sp (write_node_samples ys sp)"
    unfolding same_node_def a_def [symmetric] e_def [symmetric] xs_def [symmetric]
    by (simp add: write_node_samples_def)
qed

lemma length_filter_mset:
  "mset xs = mset ys \<Longrightarrow> length (filter P xs) = length (filter P ys)"
proof -
  assume "mset xs = mset ys"
  then have "mset (filter P xs) = mset (filter P ys)" by (simp only: mset_filter)
  then show ?thesis by (metis size_mset)
qed

lemma sum_list_map_mset:
  "mset xs = mset ys \<Longrightarrow> sum_list (map w xs) = sum_list (map (w :: 'a \<Rightarrow> real) ys)"
proof -
  assume "mset xs = mset ys"
  then have "mset (map w xs) = mset (map w ys)" by (simp only: mset_map)
  then show ?thesis by (metis sum_mset_sum_list)
qed

lemma weight_filter_mset:
  "mset xs = mset ys \<Longrightarrow> weight sp (filter P xs) = weight sp (filter P ys)"
proof -
  assume "mset xs = mset ys"
  then have "mset (filter P xs) = mset (filter P ys)" by (simp only: mset_filter)
  then show ?thesis unfolding weight_def by (rule sum_list_map_mset)
qed

lemma accepted_mset:
  assumes "mset xs = mset ys" and "same_node a b"
  shows "accepted a (fst (stable_partition a f thr xs)) (snd (stable_partition a f thr xs))
       = accepted b (fst (stable_partition b f thr ys)) (snd (stable_partition b f thr ys))"
proof -
  have X: "X b = X a" and w: "sample_weight b = sample_weight a"
    and m: "min_samples_leaf b = min_samples_leaf a" "min_weight_leaf b = min_weight_leaf a"
    using assms(2) by (simp_all add: same_node_def)
  have wb: "\<And>zs. weight b zs = weight a zs" by (simp add: weight_def w)
  show ?thesis
    unfolding accepted_def stable_partition_def fst_conv snd_conv X m wb
    using length_filter_mset [OF assms(1)] weight_filter_mset [OF assms(1), of a] by simp
qed

lemma split_ok_same_node:
  assumes "same_node a b"
  shows "split_ok a r = split_ok b r"
proof -
  have m: "mset (node_samples a) = mset (node_samples b)" and st: "start b = start a" and X: "X b = X a"
    using assms by (simp_all add: same_node_def)
  have len: "\<And>thr. length (fst (stable_partition a (feature r) thr (node_samples a)))
      = length (fst (stable_partition b (feature r) thr (node_samples b)))"
    unfolding stable_partition_def fst_conv X using length_filter_mset [OF m] by simp
  show ?thesis
    unfolding split_ok_def st len accepted_mset [OF m assms] ..
qed

lemma evaluate_Inr:
  assumes "evaluate C sp impurity f thr left right = Inr cs" and "c \<in> set cs"
  shows "feature c = f \<and> threshold c = Finite thr \<and> pos c = start sp + int (length left) \<and>
         accepted sp left right"
  using assms
  by (auto simp: evaluate_def split: if_splits sum.splits prod.splits)

lemma sorted_filter_take:
  assumes s: "sorted (map key ss)" and i: "0 < i" "i < length ss"
      and lo: "key (ss ! (i - 1)) \<le> t" and hi: "t < key (ss ! i)"
  shows "filter (\<lambda>x. key x \<le> (t::real)) ss = take i ss"
    and "filter (\<lambda>x. \<not> key x \<le> t) ss = drop i ss"
proof -
  have a: "\<forall>x\<in>set (take i ss). key x \<le> t"
  proof
    fix x assume "x \<in> set (take i ss)"
    then obtain j where j: "j < i" "x = ss ! j" using i by (auto simp: in_set_conv_nth)
    have "map key ss ! j \<le> map key ss ! (i - 1)"
      using s j i by (intro sorted_nth_mono) auto
    then show "key x \<le> t" using lo j i by simp
  qed
  have b: "\<forall>x\<in>set (drop i ss). \<not> key x \<le> t"
  proof
    fix x assume "x \<in> set (drop i ss)"
    then obtain j where j: "j < length ss - i" "x = ss ! (i + j)" using i by (auto simp: in_set_conv_nth)
    have "map key ss ! i \<le> map key ss ! (i + j)"
      using s j i by (intro sorted_nth_mono) auto
    then show "\<not> key x \<le> t" using hi j i by simp
  qed
  have sp: "ss = take i ss @ drop i ss" by simp
  have "filter (\<lambda>x. key x \<le> t) ss = filter (\<lambda>x. key x \<le> t) (take i ss) @ filter (\<lambda>x. key x \<le> t) (drop i ss)"
    by (metis sp filter_append)
  then show "filter (\<lambda>x. key x \<le> t) ss = take i ss" using a b by (simp add: filter_id_conv filter_empty_conv)
  have "filter (\<lambda>x. \<not> key x \<le> t) ss = filter (\<lambda>x. \<not> key x \<le> t) (take i ss) @ filter (\<lambda>x. \<not> key x \<le> t) (drop i ss)"
    by (metis sp filter_append)
  then show "filter (\<lambda>x. \<not> key x \<le> t) ss = drop i ss" using a b by (simp add: filter_id_conv filter_empty_conv)
qed

lemma best_scan_ok:
  assumes b: "in_bounds sp" and ns: "node_samples sp = ss" and s: "sorted (map (\<lambda>x. X sp x f) ss)"
  shows "\<forall>i\<in>set offs. 0 < i \<and> i < length ss \<Longrightarrow> best_scan C sp impurity f ss offs = Inr cs \<Longrightarrow>
         c \<in> set cs \<Longrightarrow> split_ok sp c \<and> pos c < end' sp"
proof (induction offs arbitrary: cs)
  case Nil
  then show ?case by simp
next
  case (Cons i rest)
  define a where "a = X sp (ss ! (i - 1)) f"
  define bb where "bb = X sp (ss ! i) f"
  define thr where "thr = (a + bb) / 2"
  from Cons.prems(2) have
    "\<exists>c1 c2. (if a < bb then evaluate C sp impurity f thr (take i ss) (drop i ss) else Inr []) = Inr c1
       \<and> best_scan C sp impurity f ss rest = Inr c2 \<and> cs = c1 @ c2"
    unfolding thr_def a_def bb_def by (auto simp: Let_def split: sum.splits)
  then obtain c1 c2 where
    e: "(if a < bb then evaluate C sp impurity f thr (take i ss) (drop i ss) else Inr []) = Inr c1"
    and r: "best_scan C sp impurity f ss rest = Inr c2" and cs: "cs = c1 @ c2"
    by blast
  have i: "0 < i" "i < length ss" using Cons.prems(1) by simp_all
  show ?case
  proof (cases "c \<in> set c2")
    case True
    then show ?thesis using Cons.IH [OF _ r] Cons.prems(1) by simp
  next
    case False
    then have c1: "c \<in> set c1" using Cons.prems(3) cs by simp
    then have ab: "a < bb" using e by (auto split: if_splits)
    then have ev: "evaluate C sp impurity f thr (take i ss) (drop i ss) = Inr c1" using e by simp
    have lo: "a \<le> thr" and hi: "thr < bb" using ab by (simp_all add: thr_def)
    have f1: "filter (\<lambda>x. X sp x f \<le> thr) ss = take i ss"
      and f2: "filter (\<lambda>x. \<not> X sp x f \<le> thr) ss = drop i ss"
      using sorted_filter_take [OF s i, of thr] lo hi by (simp_all add: a_def bb_def)
    have sp: "stable_partition sp f thr (node_samples sp) = (take i ss, drop i ss)"
      by (simp add: stable_partition_def ns f1 f2)
    have E: "feature c = f" "threshold c = Finite thr" "pos c = start sp + int (length (take i ss))"
      "accepted sp (take i ss) (drop i ss)"
      using evaluate_Inr [OF ev c1] by simp_all
    have ok: "split_ok sp c" unfolding split_ok_def using E sp by auto
    have "length ss = nat (end' sp - start sp)" using length_node_samples [OF b] ns by simp
    then have "pos c < end' sp" using E(3) i b by (simp add: in_bounds_def)
    then show ?thesis using ok by simp
  qed
qed

lemma best_search_ok:
  assumes b: "in_bounds sp" and r: "best_search C sp impurity f = Inr (is_constant, sp', cs)"
  shows "same_node sp sp'" and "c \<in> set cs \<Longrightarrow> split_ok sp' c \<and> pos c < end' sp'"
proof -
  define ss where "ss = sort_key (\<lambda>s. X sp s f) (node_samples sp)"
  define sp1 where "sp1 = write_node_samples ss sp"
  have m: "mset ss = mset (node_samples sp)" by (simp add: ss_def)
  have sn: "same_node sp sp1" and ns: "node_samples sp1 = ss"
    using write_node_samples_same [OF b m] by (simp_all add: sp1_def)
  have b1: "in_bounds sp1" using same_node_in_bounds [OF sn b] .
  have X1: "X sp1 = X sp" using sn by (simp add: same_node_def)
  have s: "sorted (map (\<lambda>x. X sp1 x f) ss)" unfolding X1 ss_def by (rule sorted_sort_key)
  have sp': "sp' = sp1" using r
    by (auto simp: best_search_def Let_def ss_def sp1_def split: if_splits sum.splits)
  show "same_node sp sp'" using sn sp' by simp
  show "split_ok sp' c \<and> pos c < end' sp'" if c: "c \<in> set cs"
  proof -
    have sc: "best_scan C sp1 impurity f ss [1..<length ss] = Inr cs"
      using r c by (auto simp: best_search_def Let_def ss_def sp1_def split: if_splits sum.splits)
    have "\<forall>i\<in>set [1..<length ss]. 0 < i \<and> i < length ss" by simp
    then show ?thesis using best_scan_ok [OF b1 ns s _ sc c] sp' by simp
  qed
qed

subsection \<open>One feature, and the sampling loop\<close>

lemma cand_ok_same_node: "same_node a b \<Longrightarrow> cand_ok st a c = cand_ok st b c"
  using split_ok_same_node [of a b c] by (simp add: cand_ok_def same_node_def)

lemma same_node_sym: "same_node a b \<Longrightarrow> same_node b a"
  by (simp add: same_node_def)

lemma filter_partition_again:
  "filter P (filter P xs @ filter (\<lambda>x. \<not> P x) xs) = filter P xs"
  "filter (\<lambda>x. \<not> P x) (filter P xs @ filter (\<lambda>x. \<not> P x) xs) = filter (\<lambda>x. \<not> P x) xs"
  by (induction xs) auto

lemma mset_stable_partition:
  "stable_partition sp f thr ns = (left, right) \<Longrightarrow> mset (left @ right) = mset ns"
  by (auto simp: stable_partition_def)

lemma stable_partition_again:
  assumes "stable_partition sp f thr ns = (left, right)" and "X sp' = X sp"
  shows "stable_partition sp' f thr (left @ right) = (left, right)"
  using assms filter_partition_again [of "\<lambda>s. X sp s f \<le> thr" ns]
  by (auto simp: stable_partition_def)

lemma random_search_cases:
  assumes r: "random_search rnd L C sp impurity f g = (Inr (is_constant, sp', cs), g')"
  shows "(sp' = sp \<and> cs = []) \<or>
         (\<exists>t left right. stable_partition sp f (real_of_int t) (node_samples sp) = (left, right) \<and>
            sp' = write_node_samples (left @ right) sp \<and>
            evaluate C sp' impurity f (real_of_int t) left right = Inr cs)"
proof -
  define ns where "ns = node_samples sp"
  define vs where "vs = map (\<lambda>s. X sp s f) ns"
  define lo where "lo = fold min vs (hd vs)"
  define hi where "hi = fold max vs (hd vs)"
  define part where "part = (\<lambda>t. stable_partition sp f (real_of_int t) ns)"
  define wr where "wr = (\<lambda>t. write_node_samples (fst (part t) @ snd (part t)) sp)"
  have R: "random_search rnd L C sp impurity f g =
      (if hi - lo < FEATURE_THRESHOLD then (Inr (True, sp, []), g)
       else if \<not> int_range (c_trunc lo) \<or> \<not> int_range (c_trunc hi)
       then (Inl (UndefinedBehaviour ConversionOverflow), g)
       else case rand_double rnd L (c_trunc lo) (c_trunc hi) (random_state sp) g of
              (Inl u, g) \<Rightarrow> (Inl (UndefinedBehaviour u), g)
            | (Inr t, g) \<Rightarrow>
                (case evaluate C (wr t) impurity f (real_of_int t) (fst (part t)) (snd (part t)) of
                   Inl e \<Rightarrow> (Inl e, g)
                 | Inr cs \<Rightarrow> (Inr (False, wr t, cs), g)))"
    by (simp add: random_search_def Let_def split_beta ns_def vs_def lo_def hi_def part_def wr_def
        split: sum.split)
  show ?thesis
  proof (cases "hi - lo < FEATURE_THRESHOLD")
    case True
    then show ?thesis using r unfolding R by simp
  next
    case nc: False
    show ?thesis
    proof (cases "\<not> int_range (c_trunc lo) \<or> \<not> int_range (c_trunc hi)")
      case True
      then show ?thesis using r nc unfolding R by simp
    next
      case ok: False
      obtain x g1 where rd: "rand_double rnd L (c_trunc lo) (c_trunc hi) (random_state sp) g = (x, g1)"
        by (cases "rand_double rnd L (c_trunc lo) (c_trunc hi) (random_state sp) g") auto
      show ?thesis
      proof (cases x)
        case (Inl u)
        then show ?thesis using r nc ok rd unfolding R by simp
      next
        case (Inr t)
        have r': "(case evaluate C (wr t) impurity f (real_of_int t) (fst (part t)) (snd (part t)) of
                     Inl e \<Rightarrow> (Inl e, g1)
                   | Inr cs \<Rightarrow> (Inr (False, wr t, cs), g1)) = (Inr (is_constant, sp', cs), g')"
          using r nc ok rd Inr unfolding R by simp
        show ?thesis
        proof (cases "evaluate C (wr t) impurity f (real_of_int t) (fst (part t)) (snd (part t))")
          case (Inl e)
          then show ?thesis using r' by simp
        next
          case ev: (Inr cs')
          then have e: "sp' = wr t" "cs' = cs" using r' by simp_all
          have "stable_partition sp f (real_of_int t) (node_samples sp) = (fst (part t), snd (part t))"
            by (simp add: part_def ns_def)
          moreover have "sp' = write_node_samples (fst (part t) @ snd (part t)) sp"
            using e by (simp add: wr_def)
          moreover have "evaluate C sp' impurity f (real_of_int t) (fst (part t)) (snd (part t)) = Inr cs"
            using ev e by simp
          ultimately show ?thesis by blast
        qed
      qed
    qed
  qed
qed

lemma random_search_ok:
  assumes b: "in_bounds sp"
      and r: "random_search rnd L C sp impurity f g = (Inr (is_constant, sp', cs), g')"
  shows "same_node sp sp'" and "c \<in> set cs \<Longrightarrow> split_ok sp' c"
proof -
  have "same_node sp sp' \<and> (c \<in> set cs \<longrightarrow> split_ok sp' c)"
    using random_search_cases [OF r]
  proof (elim disjE exE conjE)
    assume "sp' = sp" "cs = []"
    then show ?thesis by (simp add: same_node_refl)
  next
    fix t left right
    assume p: "stable_partition sp f (real_of_int t) (node_samples sp) = (left, right)"
      and sp': "sp' = write_node_samples (left @ right) sp"
      and ev: "evaluate C sp' impurity f (real_of_int t) left right = Inr cs"
    have m: "mset (left @ right) = mset (node_samples sp)" using mset_stable_partition [OF p] .
    have sn: "same_node sp sp'" and nsp: "node_samples sp' = left @ right"
      using write_node_samples_same [OF b m] by (simp_all add: sp')
    have X': "X sp' = X sp" using sn by (simp add: same_node_def)
    have again: "stable_partition sp' f (real_of_int t) (node_samples sp') = (left, right)"
      unfolding nsp using stable_partition_again [OF p X'] .
    have "split_ok sp' c" if c: "c \<in> set cs"
    proof -
      have E: "feature c = f" "threshold c = Finite (real_of_int t)"
        "pos c = start sp' + int (length left)" "accepted sp' left right"
        using evaluate_Inr [OF ev c] by simp_all
      show ?thesis unfolding split_ok_def using E again by auto
    qed
    then show ?thesis using sn by simp
  qed
  then show "same_node sp sp'" and "c \<in> set cs \<Longrightarrow> split_ok sp' c" by simp_all
qed

lemma search_feature_ok:
  assumes b: "in_bounds sp"
      and r: "search_feature st rnd L C sp impurity f g = (Inr (is_constant, sp', cs), g')"
  shows "same_node sp sp'" and "c \<in> set cs \<Longrightarrow> cand_ok st sp' c"
proof -
  show "same_node sp sp'"
    using r best_search_ok(1) [OF b, of C impurity f is_constant sp' cs]
      random_search_ok(1) [OF b, of rnd L C impurity f g is_constant sp' cs g']
    by (cases st) (auto simp: search_feature_def)
  show "cand_ok st sp' c" if "c \<in> set cs"
    using that r best_search_ok(2) [OF b, of C impurity f is_constant sp' cs c]
      random_search_ok(2) [OF b, of rnd L C impurity f g is_constant sp' cs g' c]
    by (cases st) (auto simp: search_feature_def cand_ok_def)
qed

lemma draw_loop_ok:
  assumes b0: "in_bounds sp0"
  shows "same_node sp0 sp \<Longrightarrow> \<forall>c\<in>set cands. cand_ok st sp0 c \<Longrightarrow>
         draw_loop st rnd L C impurity n k n_drawn n_const sp cands g = (Inr (sp', cands', nc'), g') \<Longrightarrow>
         same_node sp0 sp' \<and> (\<forall>c\<in>set cands'. cand_ok st sp0 c)"
proof (induction st rnd L C impurity n k n_drawn n_const sp cands g rule: draw_loop.induct)
  case (1 st rnd L C impurity n k n_drawn n_const sp cands g)
  note eq = "1.prems"(3)
  show ?case
  proof (cases "k < n \<and> int n_drawn < max_features sp")
    case False
    then have "sp' = sp" "cands' = cands"
      using eq by (subst (asm) draw_loop.simps, simp)+
    then show ?thesis using "1.prems"(1,2) by simp
  next
    case True
    obtain x g1 where r1: "rand_int L (int k) (int n) (random_state sp) g = (x, g1)"
      by (cases "rand_int L (int k) (int n) (random_state sp) g") auto
    from eq True r1 obtain j where x: "x = Inr j"
      by (subst (asm) draw_loop.simps) (cases x, auto)
    have inr: "\<not> (j < int k \<or> int n \<le> j)"
      using eq True r1 x by (subst (asm) draw_loop.simps) (auto split: if_splits)
    define sp1 where "sp1 = sp\<lparr>features := swap k (nat j) (features sp)\<rparr>"
    define f where "f = features sp1 ! k"
    obtain y g2 where r2: "search_feature st rnd L C sp1 impurity f g1 = (y, g2)"
      by (cases "search_feature st rnd L C sp1 impurity f g1") auto
    from eq True r1 x inr r2 obtain is_constant sp2 cs where y: "y = Inr (is_constant, sp2, cs)"
      by (subst (asm) draw_loop.simps) (cases y, auto simp: sp1_def f_def Let_def)
    have sn1: "same_node sp0 sp1" using "1.prems"(1) same_node_trans [OF _ same_node_features]
      by (simp add: sp1_def)
    have b1: "in_bounds sp1" using same_node_in_bounds [OF sn1 b0] .
    have r2': "search_feature st rnd L C sp1 impurity f g1 = (Inr (is_constant, sp2, cs), g2)"
      using r2 y by simp
    have sn2: "same_node sp1 sp2" using search_feature_ok(1) [OF b1 r2'] .
    have sn02: "same_node sp0 sp2" using same_node_trans [OF sn1 sn2] .
    have cs: "\<forall>c\<in>set (cands @ cs). cand_ok st sp0 c"
      using "1.prems"(2) search_feature_ok(2) [OF b1 r2'] cand_ok_same_node [OF sn02] by auto
    show ?thesis
    proof (cases is_constant)
      case True
      have rec: "draw_loop st rnd L C impurity n (k + 1) (n_drawn + 1) (n_const + 1)
            (sp2\<lparr>features := swap n_const k (features sp2)\<rparr>) (cands @ cs) g2
          = (Inr (sp', cands', nc'), g')"
        using eq \<open>k < n \<and> int n_drawn < max_features sp\<close> r1 x inr r2' True
        by (subst (asm) draw_loop.simps) (simp add: sp1_def f_def Let_def)
      have sn3: "same_node sp0 (sp2\<lparr>features := swap n_const k (features sp2)\<rparr>)"
        using same_node_trans [OF sn02 same_node_features] .
      show ?thesis
        using "1.IH"(1) [OF \<open>k < n \<and> int n_drawn < max_features sp\<close> r1 [symmetric] x inr
            sp1_def f_def r2 [symmetric] y refl refl True sn3 cs rec] .
    next
      case False
      have rec: "draw_loop st rnd L C impurity n (k + 1) (n_drawn + 1) n_const sp2 (cands @ cs) g2
          = (Inr (sp', cands', nc'), g')"
        using eq \<open>k < n \<and> int n_drawn < max_features sp\<close> r1 x inr r2' False
        by (subst (asm) draw_loop.simps) (simp add: sp1_def f_def Let_def)
      show ?thesis
        using "1.IH"(2) [OF \<open>k < n \<and> int n_drawn < max_features sp\<close> r1 [symmetric] x inr
            sp1_def f_def r2 [symmetric] y refl refl False sn02 cs rec] .
    qed
  qed
qed

subsection \<open>The kept candidate and the final partition\<close>

lemma fold_keep_better_mem: "fold keep_better cs b \<in> insert b (set cs)"
proof (induction cs arbitrary: b)
  case Nil
  then show ?case by simp
next
  case (Cons c cs)
  have "keep_better c b = c \<or> keep_better c b = b" by (simp add: keep_better_def)
  then show ?case using Cons [of "keep_better c b"] by auto
qed



lemma slice_split:
  assumes "0 \<le> a" "a \<le> m" "m \<le> e"
  shows "slice xs a m = take (nat (m - a)) (slice xs a e)"
    and "slice xs m e = drop (nat (m - a)) (slice xs a e)"
proof -
  have 1: "min (nat (m - a)) (nat (e - a)) = nat (m - a)" using assms by simp
  show "slice xs a m = take (nat (m - a)) (slice xs a e)"
    by (simp add: slice_def 1)
  have 2: "nat (m - a) + nat a = nat m" "nat (e - a) - nat (m - a) = nat (e - m)" using assms by simp_all
  show "slice xs m e = drop (nat (m - a)) (slice xs a e)"
    by (simp add: slice_def drop_take 2)
qed

lemma node_split_candidates_ok:
  assumes "node_split_candidates st rnd L C impurity ncf sp g = (Inr (spc, cands, nc), g')"
  shows "in_bounds sp" and "same_node sp spc" and "\<forall>c\<in>set cands. cand_ok st sp c"
proof -
  have b: "in_bounds sp"
    using assms by (auto simp: node_split_candidates_def in_bounds_def split: if_splits)
  then have d: "draw_loop st rnd L C impurity (length (features sp)) (nat ncf) 0 (nat ncf) sp [] g
      = (Inr (spc, cands, nc), g')"
    using assms by (auto simp: node_split_candidates_def in_bounds_def split: if_splits)
  show "in_bounds sp" by (rule b)
  show "same_node sp spc" "\<forall>c\<in>set cands. cand_ok st sp c"
    using draw_loop_ok [OF b same_node_refl _ d] by simp_all
qed

lemma node_split_Inr:
  assumes "node_split st rnd L C impurity ncf sp g = (Inr (r, ncf', sp'), g')"
  shows "\<exists>spc cands nc.
           node_split_candidates st rnd L C impurity ncf sp g = (Inr (spc, cands, nc), g') \<and>
           r = fold keep_better cands (init_split (end' spc) SplitRecord_default) \<and>
           ncf' = int nc \<and>
           sp' = (if pos r < end' spc then partition_node r spc else spc)"
proof -
  obtain x g1 where c: "node_split_candidates st rnd L C impurity ncf sp g = (x, g1)"
    by (cases "node_split_candidates st rnd L C impurity ncf sp g") auto
  show ?thesis
  proof (cases x)
    case (Inl e)
    then show ?thesis using assms c by (simp add: node_split_def)
  next
    case (Inr y)
    obtain spc cands nc where y: "y = (spc, cands, nc)" by (cases y) auto
    show ?thesis using assms c Inr y
      by (auto simp: node_split_def Let_def split: if_splits)
  qed
qed

lemma partition_node_ok:
  assumes b: "in_bounds sp" and ok: "split_ok sp r"
  shows "same_node sp (partition_node r sp)"
    and "accepted sp (slice (samples (partition_node r sp)) (start sp) (pos r))
                     (slice (samples (partition_node r sp)) (pos r) (end' sp))"
proof -
  from ok obtain thr where t: "threshold r = Finite thr"
    and p: "pos r = start sp + int (length (fst (stable_partition sp (feature r) thr (node_samples sp))))"
    and acc: "accepted sp (fst (stable_partition sp (feature r) thr (node_samples sp)))
                          (snd (stable_partition sp (feature r) thr (node_samples sp)))"
    unfolding split_ok_def by blast
  define left where "left = fst (stable_partition sp (feature r) thr (node_samples sp))"
  define right where "right = snd (stable_partition sp (feature r) thr (node_samples sp))"
  have sp: "stable_partition sp (feature r) thr (node_samples sp) = (left, right)"
    by (simp add: left_def right_def)
  have pn: "partition_node r sp = write_node_samples (left @ right) sp"
    by (simp add: partition_node_def t sp)
  have m: "mset (left @ right) = mset (node_samples sp)" using mset_stable_partition [OF sp] .
  show sn: "same_node sp (partition_node r sp)"
    and "accepted sp (slice (samples (partition_node r sp)) (start sp) (pos r))
                     (slice (samples (partition_node r sp)) (pos r) (end' sp))"
  proof -
    have sn: "same_node sp (partition_node r sp)"
      and ns: "node_samples (partition_node r sp) = left @ right"
      using write_node_samples_same [OF b m] by (simp_all add: pn)
    show "same_node sp (partition_node r sp)" by (rule sn)
    have len: "length (left @ right) = nat (end' sp - start sp)"
      using length_node_samples [OF b] m by (metis size_mset)
    have pr: "start sp \<le> pos r" "pos r \<le> end' sp"
      using p len b unfolding left_def [symmetric] in_bounds_def by auto
    have s: "slice (samples (partition_node r sp)) (start sp) (end' sp) = left @ right"
      using ns sn by (simp add: node_samples_def same_node_def)
    have b0: "0 \<le> start sp" using b by (simp add: in_bounds_def)
    have k: "nat (pos r - start sp) = length left" using p by (simp add: left_def)
    have "slice (samples (partition_node r sp)) (start sp) (pos r) = left"
      and "slice (samples (partition_node r sp)) (pos r) (end' sp) = right"
      using slice_split [OF b0 pr, of "samples (partition_node r sp)"] by (simp_all add: s k)
    then show "accepted sp (slice (samples (partition_node r sp)) (start sp) (pos r))
                     (slice (samples (partition_node r sp)) (pos r) (end' sp))"
      using acc by (simp add: left_def right_def)
  qed
qed


lemma node_split_result:
  assumes ns: "node_split st rnd L C impurity ncf sp g = (Inr (r, ncf', sp'), g')"
  shows "\<exists>spc cands nc.
    node_split_candidates st rnd L C impurity ncf sp g = (Inr (spc, cands, nc), g') \<and>
    in_bounds sp \<and> same_node sp spc \<and> same_node sp sp' \<and>
    r = fold keep_better cands (init_split (end' sp) SplitRecord_default) \<and>
    (\<forall>c\<in>set cands. cand_ok st sp c) \<and>
    (pos r < end' sp \<longrightarrow> r \<in> set cands \<and> sp' = partition_node r spc) \<and>
    (\<not> pos r < end' sp \<longrightarrow> sp' = spc)"
proof -
  from node_split_Inr [OF ns] obtain spc cands nc where
    c: "node_split_candidates st rnd L C impurity ncf sp g = (Inr (spc, cands, nc), g')"
    and r: "r = fold keep_better cands (init_split (end' spc) SplitRecord_default)"
    and sp': "sp' = (if pos r < end' spc then partition_node r spc else spc)"
    by blast
  have b: "in_bounds sp" and sn: "same_node sp spc" and ok: "\<forall>c\<in>set cands. cand_ok st sp c"
    using node_split_candidates_ok [OF c] by simp_all
  have e: "end' spc = end' sp" using sn by (simp add: same_node_def)
  have bc: "in_bounds spc" using same_node_in_bounds [OF sn b] .
  have mem: "r \<in> set cands" if "pos r < end' sp"
  proof -
    have "pos (init_split (end' sp) SplitRecord_default) = end' sp" by (simp add: init_split_def)
    then have "r \<noteq> init_split (end' sp) SplitRecord_default" using that by auto
    then show ?thesis using fold_keep_better_mem [of cands "init_split (end' sp) SplitRecord_default"] r e
      by auto
  qed
  have sn': "same_node sp sp'"
  proof (cases "pos r < end' sp")
    case True
    have "split_ok spc r" using ok mem [OF True] cand_ok_same_node [OF sn] by (auto simp: cand_ok_def)
    then have "same_node spc (partition_node r spc)" using partition_node_ok(1) [OF bc] by simp
    then show ?thesis using same_node_trans [OF sn] sp' True e by simp
  next
    case False
    then show ?thesis using sn sp' e by simp
  qed
  show ?thesis
    using c b sn sn' ok r e mem sp' by auto
qed

subsection \<open>The best search returns a record when nothing fails\<close>

text \<open>
  With a non-empty range inside the permutation, a criterion that answers, and a
  \<^verbatim>\<open>rand()\<close> that is not negative, \<^verbatim>\<open>node_split\<close> of the best strategy returns a
  record: it raises no error and meets no undefined behaviour.
\<close>

lemma rand_int_in_range:
  assumes rv: "0 \<le> fst (libc_rand L (libc_srand L seed))"
      and lo: "0 \<le> low" and lt: "low < high" and hi: "int_range high"
  shows "\<exists>v g'. rand_int L low high seed g = (Inr v, g') \<and> low \<le> v \<and> v < high"
proof -
  define r where "r = fst (libc_rand L (libc_srand L seed))"
  define d where "d = high - low"
  have d: "0 < d" "int_range d" using lo lt hi by (auto simp: d_def int_range_def)
  have c: "c_rem r d = r mod d"
    using rv d(1) by (cases "r = 0") (auto simp: c_rem_def r_def)
  have m: "0 \<le> r mod d" "r mod d < d" using d(1) by simp_all
  have ir: "int_range (low + r mod d)"
    unfolding int_range_def using m lo lt hi unfolding d_def int_range_def by linarith
  have "fst (rand_int L low high seed g) = Inr (low + r mod d)"
    using d ir rv c unfolding r_def d_def
    by (simp add: rand_int_def Let_def split_beta)
  moreover have "low \<le> low + r mod d" "low + r mod d < high" using m by (simp_all add: d_def)
  ultimately show ?thesis by (metis prod.collapse)
qed

lemma evaluate_total:
  "criterion_total C \<Longrightarrow> \<exists>cs. evaluate C sp impurity f thr left right = Inr cs"
proof -
  assume t: "criterion_total C"
  obtain il ir where c: "children_impurity C left right = Inr (il, ir)"
    using t unfolding criterion_total_def by (metis surj_pair)
  obtain imp where i: "impurity_improvement C left right impurity il ir = Inr imp"
    using t unfolding criterion_total_def by metis
  show ?thesis by (simp add: evaluate_def c i)
qed

lemma best_scan_total:
  "criterion_total C \<Longrightarrow> \<exists>cs. best_scan C sp impurity f ss offs = Inr cs"
proof (induction offs)
  case Nil
  then show ?case by simp
next
  case (Cons i rest)
  obtain ds where r: "best_scan C sp impurity f ss rest = Inr ds" using Cons by blast
  obtain cs where e: "evaluate C sp impurity f ((X sp (ss ! (i - 1)) f + X sp (ss ! i) f) / 2)
      (take i ss) (drop i ss) = Inr cs"
    using evaluate_total [OF Cons.prems] by blast
  show ?case using r e by (auto simp: Let_def)
qed

lemma best_search_total:
  "criterion_total C \<Longrightarrow> \<exists>b sp' cs. best_search C sp impurity f = Inr (b, sp', cs)"
proof -
  assume t: "criterion_total C"
  define ss where "ss = sort_key (\<lambda>s. X sp s f) (node_samples sp)"
  obtain cs where "best_scan C (write_node_samples ss sp) impurity f ss [1..<length ss] = Inr cs"
    using best_scan_total [OF t] by blast
  then show ?thesis by (auto simp: best_search_def Let_def ss_def)
qed

lemma draw_loop_total:
  shows "same_node sp0 sp \<Longrightarrow> in_bounds sp0 \<Longrightarrow> criterion_total C \<Longrightarrow>
         0 \<le> fst (libc_rand L (libc_srand L (random_state sp0))) \<Longrightarrow> int_range (int n) \<Longrightarrow>
         \<exists>sp' cs nc g'. draw_loop Best rnd L C impurity n k n_drawn n_const sp cands g
                          = (Inr (sp', cs, nc), g')"
proof (induction "Best" rnd L C impurity n k n_drawn n_const sp cands g rule: draw_loop.induct)
  case (1 rnd L C impurity n k n_drawn n_const sp cands g)
  show ?case
  proof (cases "k < n \<and> int n_drawn < max_features sp")
    case False
    then show ?thesis by (subst draw_loop.simps) auto
  next
    case True
    have rs: "random_state sp = random_state sp0" using "1.prems"(1) by (simp add: same_node_def)
    obtain j g1 where r1: "rand_int L (int k) (int n) (random_state sp) g = (Inr j, g1)"
      and j: "int k \<le> j" "j < int n"
      using rand_int_in_range [of L "random_state sp0" "int k" "int n" g] "1.prems"(4) "1.prems"(5) True rs
      by auto
    define sp1 where "sp1 = sp\<lparr>features := swap k (nat j) (features sp)\<rparr>"
    define f where "f = features sp1 ! k"
    obtain is_constant sp2 cs where bs: "best_search C sp1 impurity f = Inr (is_constant, sp2, cs)"
      using best_search_total [OF "1.prems"(3)] by blast
    have r2: "search_feature Best rnd L C sp1 impurity f g1 = (Inr (is_constant, sp2, cs), g1)"
      by (simp add: search_feature_def bs)
    have sn1: "same_node sp0 sp1" using "1.prems"(1) same_node_trans [OF _ same_node_features]
      by (simp add: sp1_def)
    have b1: "in_bounds sp1" using same_node_in_bounds [OF sn1 "1.prems"(2)] .
    have sn02: "same_node sp0 sp2" using same_node_trans [OF sn1 search_feature_ok(1) [OF b1 r2]] .
    have inr: "\<not> (j < int k \<or> int n \<le> j)" using j by simp
    show ?thesis
    proof (cases is_constant)
      case c: True
      have sn3: "same_node sp0 (sp2\<lparr>features := swap n_const k (features sp2)\<rparr>)"
        using same_node_trans [OF sn02 same_node_features] .
      have "\<exists>sp' cs' nc g'. draw_loop Best rnd L C impurity n (k + 1) (n_drawn + 1) (n_const + 1)
              (sp2\<lparr>features := swap n_const k (features sp2)\<rparr>) (cands @ cs) g1 = (Inr (sp', cs', nc), g')"
        using "1.hyps"(1) [OF True r1 [symmetric] refl inr sp1_def f_def r2 [symmetric] refl refl refl c
            sn3 "1.prems"(2,3,4,5)] .
      then show ?thesis
        using True r1 inr r2 c by (subst draw_loop.simps) (simp add: sp1_def f_def Let_def)
    next
      case c: False
      have "\<exists>sp' cs' nc g'. draw_loop Best rnd L C impurity n (k + 1) (n_drawn + 1) n_const
              sp2 (cands @ cs) g1 = (Inr (sp', cs', nc), g')"
        using "1.hyps"(2) [OF True r1 [symmetric] refl inr sp1_def f_def r2 [symmetric] refl refl refl c
            sn02 "1.prems"(2,3,4,5)] .
      then show ?thesis
        using True r1 inr r2 c by (subst draw_loop.simps) (simp add: sp1_def f_def Let_def)
    qed
  qed
qed

lemma best_node_split_returns:
  assumes "in_bounds sp" and "criterion_total C"
      and "0 \<le> fst (libc_rand L (libc_srand L (random_state sp)))"
      and "int_range (int (length (features sp)))"
  shows "\<exists>r k sp' g'. node_split Best rnd L C impurity ncf sp g = (Inr (r, k, sp'), g')"
proof -
  obtain spc cands nc g' where
    "draw_loop Best rnd L C impurity (length (features sp)) (nat ncf) 0 (nat ncf) sp [] g
       = (Inr (spc, cands, nc), g')"
    using draw_loop_total [OF same_node_refl assms] by blast
  then have "node_split_candidates Best rnd L C impurity ncf sp g = (Inr (spc, cands, nc), g')"
    using assms(1) by (simp add: node_split_candidates_def in_bounds_def)
  then show ?thesis by (simp add: node_split_def Let_def)
qed

subsection \<open>The search on the example nodes\<close>

lemmas split_defs = node_split_def node_split_candidates_def search_feature_def best_search_def
  random_search_def evaluate_def accepted_def weight_def node_samples_def slice_def
  write_node_samples_def swap_def keep_better_def partition_node_def stable_partition_def
  init_split_def SplitRecord_default_def FEATURE_THRESHOLD_def gini_criterion_def gini_def
  example_splitter_def example_labels_def example_node_def example_best_record_def
  example_random_record_def example_constant_node_def

lemma example_rand_int: "rand_int iso_c_libc 0 1 1 g = (Inr 0, 1103527590)"
  by (simp add: rand_int_def iso_c_libc_def int_range_def c_rem_def Let_def)

lemma example_rand_double: "rand_double exact iso_c_libc 1 10 1 g = (Inr 5, 1103527590)"
  by (simp add: rand_double_def iso_c_libc_def exact_def int_range_def c_trunc_def Let_def)


lemma example_best_split:
  "node_split Best exact iso_c_libc (gini_criterion example_labels) (Finite (1 / 2)) 0 example_node 0
   = (Inr (example_best_record, 0, example_node\<lparr>samples := [5, 0, 1, 2, 3, 4]\<rparr>), 1103527590)"
  by (simp add: split_defs draw_loop.simps example_rand_int Let_def upt_rec)

lemma example_random_split:
  "node_split Random exact iso_c_libc (gini_criterion example_labels) (Finite (1 / 2)) 0 example_node 0
   = (Inr (example_random_record, 0, example_node\<lparr>samples := [5, 0, 2, 1, 3, 4]\<rparr>), 1103527590)"
  by (simp add: split_defs draw_loop.simps example_rand_int example_rand_double c_trunc_def
      int_range_def Let_def)



section \<open>The claims about node_split\<close>



text \<open>
  C3. When \<^verbatim>\<open>node_split\<close>, of either strategy, returns a split (\<open>pos < end\<close>), the left
  part \<^verbatim>\<open>samples[start:pos)\<close> and the right part \<^verbatim>\<open>samples[pos:end)\<close> each hold at least
  \<^verbatim>\<open>min_samples_leaf\<close> samples and at least \<^verbatim>\<open>min_weight_leaf\<close> total sample weight. (A
  boundary that violates a bound yields no candidate at all: see \<open>evaluate\<close>.)
\<close>

theorem accepted_split_respects_leaf_minimums:
  assumes "node_split st rnd L C impurity ncf sp g = (Inr (r, ncf', sp'), g')"
      and "pos r < end' sp"
  shows "min_samples_leaf sp \<le> int (length (slice (samples sp') (start sp) (pos r))) \<and>
         min_samples_leaf sp \<le> int (length (slice (samples sp') (pos r) (end' sp))) \<and>
         min_weight_leaf sp \<le> sum_list (map (sample_weight sp) (slice (samples sp') (start sp) (pos r))) \<and>
         min_weight_leaf sp \<le> sum_list (map (sample_weight sp) (slice (samples sp') (pos r) (end' sp)))"
proof -
  obtain spc cands nc where
    c: "node_split_candidates st rnd L C impurity ncf sp g = (Inr (spc, cands, nc), g')"
    and b: "in_bounds sp" and snc: "same_node sp spc" and sn: "same_node sp sp'"
    and r: "r = fold keep_better cands (init_split (end' sp) SplitRecord_default)"
    and ok: "\<forall>c\<in>set cands. cand_ok st sp c"
    and mem: "pos r < end' sp \<Longrightarrow> r \<in> set cands \<and> sp' = partition_node r spc"
    and same: "\<not> pos r < end' sp \<Longrightarrow> sp' = spc"
    using node_split_result [OF assms(1)] by blast
  have bc: "in_bounds spc" using same_node_in_bounds [OF snc b] .
  have "split_ok sp r" using mem [OF assms(2)] ok by (auto simp: cand_ok_def)
  then have "split_ok spc r" using split_ok_same_node [OF snc] by simp
  then have "accepted spc (slice (samples (partition_node r spc)) (start spc) (pos r))
                          (slice (samples (partition_node r spc)) (pos r) (end' spc))"
    using partition_node_ok(2) [OF bc] by simp
  then show ?thesis
    using mem [OF assms(2)] snc by (simp add: accepted_def weight_def same_node_def)
qed

theorem accepted_split_respects_leaf_minimums_witness:
  "pos example_best_record < end' example_node \<and>
   pos example_random_record < end' example_node \<and>
   min_samples_leaf example_node = 1 \<and> min_weight_leaf example_node = 1 \<and>
   (min_samples_leaf example_node
      \<le> int (length (slice (samples (example_node\<lparr>samples := [5, 0, 1, 2, 3, 4]\<rparr>)) (start example_node) (pos example_best_record))) \<and>
    min_samples_leaf example_node
      \<le> int (length (slice (samples (example_node\<lparr>samples := [5, 0, 1, 2, 3, 4]\<rparr>)) (pos example_best_record) (end' example_node))) \<and>
    min_weight_leaf example_node
      \<le> sum_list (map (sample_weight example_node)
            (slice (samples (example_node\<lparr>samples := [5, 0, 1, 2, 3, 4]\<rparr>)) (start example_node) (pos example_best_record))) \<and>
    min_weight_leaf example_node
      \<le> sum_list (map (sample_weight example_node)
            (slice (samples (example_node\<lparr>samples := [5, 0, 1, 2, 3, 4]\<rparr>)) (pos example_best_record) (end' example_node)))) \<and>
   (min_samples_leaf example_node
      \<le> int (length (slice (samples (example_node\<lparr>samples := [5, 0, 2, 1, 3, 4]\<rparr>)) (start example_node) (pos example_random_record))) \<and>
    min_samples_leaf example_node
      \<le> int (length (slice (samples (example_node\<lparr>samples := [5, 0, 2, 1, 3, 4]\<rparr>)) (pos example_random_record) (end' example_node))) \<and>
    min_weight_leaf example_node
      \<le> sum_list (map (sample_weight example_node)
            (slice (samples (example_node\<lparr>samples := [5, 0, 2, 1, 3, 4]\<rparr>)) (start example_node) (pos example_random_record))) \<and>
    min_weight_leaf example_node
      \<le> sum_list (map (sample_weight example_node)
            (slice (samples (example_node\<lparr>samples := [5, 0, 2, 1, 3, 4]\<rparr>)) (pos example_random_record) (end' example_node))))"
proof -
  have b: "pos example_best_record < end' example_node"
    and r: "pos example_random_record < end' example_node"
    and m: "min_samples_leaf example_node = 1" "min_weight_leaf example_node = 1"
    by (simp_all add: example_node_def example_splitter_def example_best_record_def
        example_random_record_def)
  show ?thesis
    using b r m accepted_split_respects_leaf_minimums [OF example_best_split b]
      accepted_split_respects_leaf_minimums [OF example_random_split r]
    by blast
qed



end
